theory Spec2Isabelle
  imports Main "HOL-Library.Code_Target_Nat"
begin

section \<open>JavaScript values used by the library\<close>

text \<open>
  The run-time errors the JavaScript engine itself raises in the code below:
  \<^verbatim>\<open>RangeError\<close> from \<^verbatim>\<open>new Array( len )\<close> with an invalid length, and
  \<^verbatim>\<open>TypeError\<close> from a call of a value that is not a function. The library's
  sources contain no \<^verbatim>\<open>throw\<close> statement and define no error class.
\<close>

datatype js_error = RangeError | TypeError

text \<open>
  Reading \<^verbatim>\<open>a[i]\<close> from an array of numbers: at or beyond the length the value
  is \<^verbatim>\<open>undefined\<close> (here \<open>None\<close>); a read does not raise.
\<close>

definition get :: "'a list \<Rightarrow> nat \<Rightarrow> 'a option" where
  "get a i = (if i < length a then Some (a ! i) else None)"

text \<open>
  The result of an arithmetic expression: a number, or \<^verbatim>\<open>NaN\<close>, which is what
  an operation on \<^verbatim>\<open>undefined\<close> yields and which every later operation keeps.
  The carrier \<open>'a\<close> of the numbers is left open, and so are its operations \<open>+\<close> and
  \<open>*\<close>: nothing below assumes a law of arithmetic for them, so they may round as the
  operations on doubles do (and a carrier may hold a not-a-number value of its own,
  which is then a \<open>Number\<close> here).
\<close>

datatype 'a number = Number 'a | NaN

fun js_times :: "'a::times option \<Rightarrow> 'a option \<Rightarrow> 'a number" where
  "js_times (Some x) (Some y) = Number (x * y)"
| "js_times _ _ = NaN"

fun js_plus :: "'a::plus number \<Rightarrow> 'a number \<Rightarrow> 'a number" where
  "js_plus (Number x) (Number y) = Number (x + y)"
| "js_plus _ _ = NaN"

section \<open>Algebra.js\<close>

text \<open>
  \<^verbatim>\<open>Array.prototype.reduce( callback, initialValue )\<close> on an array without holes:
  the callback receives the accumulator, the element and its index, from index 0 upwards.
\<close>

fun reduce_from :: "('b \<Rightarrow> 'a \<Rightarrow> nat \<Rightarrow> 'b) \<Rightarrow> 'b \<Rightarrow> nat \<Rightarrow> 'a list \<Rightarrow> 'b" where
  "reduce_from callback result i [] = result"
| "reduce_from callback result i (v # vs) = reduce_from callback (callback result v i) (Suc i) vs"

definition reduce :: "'a list \<Rightarrow> ('b \<Rightarrow> 'a \<Rightarrow> nat \<Rightarrow> 'b) \<Rightarrow> 'b \<Rightarrow> 'b" where
  "reduce p callback initialValue = reduce_from callback initialValue 0 p"

text \<open>
  \<^verbatim>\<open>function linearCombination( p, q ) {
    return p.reduce( ( result, v, i ) => result + p[ i ] * q[ i ], 0 );
  }\<close>
  The arguments are arrays of numbers (\<^verbatim>\<open>number[]\<close>), so without holes. The
  function has no check of the lengths and no failing path.
\<close>

definition linearCombination :: "'a::{zero,plus,times} list \<Rightarrow> 'a list \<Rightarrow> 'a number" where
  "linearCombination p q =
     reduce p (\<lambda>result v i. js_plus result (js_times (get p i) (get q i)))
       (Number 0)"

section \<open>Arrays as IdentityMatrix.js builds them\<close>

text \<open>
  An array under construction is a list of slots; \<open>None\<close> is a hole (an index below the
  length that holds no element). \<^verbatim>\<open>new Array( len )\<close> makes \<open>len\<close> holes and raises
  \<^verbatim>\<open>RangeError\<close> when \<open>len\<close> exceeds \<open>2^32 - 1\<close>; the lengths passed here are
  natural numbers.
\<close>

type_synonym 'a array = "'a option list"

definition new_Array :: "nat \<Rightarrow> js_error + 'a array" where
  "new_Array len = (if 4294967295 < len then Inl RangeError else Inr (replicate len None))"

text \<open>\<^verbatim>\<open>a.fill( v )\<close> puts \<open>v\<close> into every slot, holes included.\<close>

definition fill :: "'a array \<Rightarrow> 'a \<Rightarrow> 'a array" where
  "fill a v = map (\<lambda>_. Some v) a"

text \<open>
  The assignment \<^verbatim>\<open>a[ i ] = v\<close> with an integer \<open>i\<close>. Below the length it replaces
  the slot; at or beyond the length the array grows, with holes up to \<open>i\<close>. A key that
  is not an array index (negative, or \<open>2^32 - 1\<close> and above) becomes an ordinary property
  of the object, which is not modelled: the slots stay as they are. The assignment never
  raises.
\<close>

definition store :: "'a array \<Rightarrow> int \<Rightarrow> 'a \<Rightarrow> 'a array" where
  "store a i v =
     (if 0 \<le> i \<and> i < 4294967295 then
        (if nat i < length a then a[nat i := Some v]
         else a @ replicate (nat i - length a) None @ [Some v])
      else a)"

text \<open>
  \<^verbatim>\<open>this.rows\<close> starts as \<^verbatim>\<open>[]\<close> and grows by \<^verbatim>\<open>push\<close> only, so it is a list
  of arrays; \<^verbatim>\<open>slice()\<close> copies the outer array and shares the rows.
\<close>

definition push :: "'a list \<Rightarrow> 'a \<Rightarrow> 'a list" where
  "push xs x = xs @ [x]"

definition slice :: "'a list \<Rightarrow> 'a list" where
  "slice xs = xs"

section \<open>IdentityMatrix.js\<close>

text \<open>
  The instance: \<^verbatim>\<open>this.size = { rows: size, columns: size }\<close> is the pair of fields
  \<open>size_rows\<close> and \<open>size_columns\<close>; the other fields carry the names of the properties
  the constructor assigns. Entries are the numbers 0 and 1; sizes, loop counters and
  offsets are natural numbers; the positions a caller passes to \<^verbatim>\<open>entry\<close>,
  \<^verbatim>\<open>row\<close> and \<^verbatim>\<open>column\<close> are integers.
\<close>

record IdentityMatrix =
  size_rows :: nat
  size_columns :: nat
  numberOfEntries :: nat
  elements :: "int array"
  rank :: nat
  rows :: "int array list"
  columns :: "int array list"

text \<open>
  \<^verbatim>\<open>for ( let index = 0, _size = size + 1, _n = this.numberOfEntries;
        index < _n; index += _size ) this.elements[ index ] = 1;\<close>
  The step \<open>_size\<close> is \<open>size + 1\<close>, written out in the recursive call; the parameter
  \<^verbatim>\<open>size\<close> is \<open>size'\<close> here, and the locals \<^verbatim>\<open>_n\<close>, \<^verbatim>\<open>_nCols\<close>,
  \<^verbatim>\<open>_nRows\<close> of the loops are \<open>n\<close>, \<open>nCols\<close>, \<open>nRows\<close>.
\<close>

function diagonal_loop :: "int array \<Rightarrow> nat \<Rightarrow> nat \<Rightarrow> nat \<Rightarrow> int array" where
  "diagonal_loop this_elements index size' n =
     (if index < n
      then diagonal_loop (store this_elements (int index) 1) (index + (size' + 1)) size' n
      else this_elements)"
  by pat_completeness auto
termination
  by (relation "measure (\<lambda>(this_elements, index, size', n). n - index)") auto

declare diagonal_loop.simps [simp del]

text \<open>
  \<^verbatim>\<open>for ( let i = 0; i < size; i ++ ) {
      let row = new Array( size ).fill( 0 ); row[ i ] = 1;
      this.rows.push( row );
  }\<close>
\<close>

function rows_loop :: "nat \<Rightarrow> nat \<Rightarrow> int array list \<Rightarrow> js_error + int array list" where
  "rows_loop i size' this_rows =
     (if i < size' then
        (case new_Array size' of
           Inl e \<Rightarrow> Inl e
         | Inr a \<Rightarrow>
             (let row = store (fill a 0) (int i) 1
              in rows_loop (i + 1) size' (push this_rows row)))
      else Inr this_rows)"
  by pat_completeness auto
termination
  by (relation "measure (\<lambda>(i, size', this_rows). size' - i)") auto

declare rows_loop.simps [simp del]

text \<open>
  The constructor, \<^verbatim>\<open>new IdentityMatrix( size )\<close>. Its parameter is documented as
  the number of rows, so it is a natural number here; the constructor's behaviour on a
  negative or fractional size is outside the model.
\<close>

definition constructor :: "nat \<Rightarrow> js_error + IdentityMatrix" where
  "constructor size' =
     (let numberOfEntries = size' * size' in
      case new_Array numberOfEntries of
        Inl e \<Rightarrow> Inl e
      | Inr a \<Rightarrow>
          (let elements = diagonal_loop (fill a 0) 0 size' numberOfEntries;
               rank = size' in
           case rows_loop 0 size' [] of
             Inl e \<Rightarrow> Inl e
           | Inr this_rows \<Rightarrow>
               Inr \<lparr> size_rows = size', size_columns = size',
                     numberOfEntries = numberOfEntries, elements = elements,
                     rank = rank, rows = this_rows, columns = slice this_rows \<rparr>))"

text \<open>\<^verbatim>\<open>clone() { return new this.constructor( this.size.rows ); }\<close>\<close>

definition clone :: "IdentityMatrix \<Rightarrow> js_error + IdentityMatrix" where
  "clone this = constructor (size_rows this)"

text \<open>\<^verbatim>\<open>get transpose() { return this.clone(); }\<close>\<close>

definition transpose_get :: "IdentityMatrix \<Rightarrow> js_error + IdentityMatrix" where
  "transpose_get this = clone this"

text \<open>\<^verbatim>\<open>entry( r, c ) { return ( r === c ) ? 1 : 0; }\<close>\<close>

definition entry :: "IdentityMatrix \<Rightarrow> int \<Rightarrow> int \<Rightarrow> int" where
  "entry this r c = (if r = c then 1 else 0)"

text \<open>
  \<^verbatim>\<open>row( r ) {
      let size = this.size.rows;
      let row = new Array( size ).fill( 0 );
      row[ r - 1 ] = 1;
      return row;
  }\<close>
\<close>

definition row :: "IdentityMatrix \<Rightarrow> int \<Rightarrow> js_error + int array" where
  "row this r =
     (let size = size_rows this in
      case new_Array size of
        Inl e \<Rightarrow> Inl e
      | Inr a \<Rightarrow> Inr (store (fill a 0) (r - 1) 1))"

text \<open>\<^verbatim>\<open>column( c ) { return this.row( c ); }\<close>\<close>

definition column :: "IdentityMatrix \<Rightarrow> int \<Rightarrow> js_error + int array" where
  "column this c = row this c"

text \<open>\<^verbatim>\<open>mainDiagonal() { return new Array( this.size.rows ).fill( 1 ); }\<close>\<close>

definition mainDiagonal :: "IdentityMatrix \<Rightarrow> js_error + int array" where
  "mainDiagonal this =
     (case new_Array (size_rows this) of Inl e \<Rightarrow> Inl e | Inr a \<Rightarrow> Inr (fill a 1))"

text \<open>\<^verbatim>\<open>leadingCoefficient( r ) { return 1; }\<close>\<close>

definition leadingCoefficient :: "IdentityMatrix \<Rightarrow> int \<Rightarrow> int" where
  "leadingCoefficient this r = 1"

text \<open>
  The iterators call \<^verbatim>\<open>callback.bind( thisArg )( ... )\<close>. A callback acts through
  its effects, so it is a function from the arguments of the call and the state before
  the call to the state after it; \<open>thisArg\<close> is its first argument. The body of
  \<^verbatim>\<open>forEach\<close>'s loop:
  \<^verbatim>\<open>let entry = ( r === c ) ? 1 : 0;
  callback.bind( thisArg )( entry, r, c, index, matrix );
  c ++;
  if ( c > _nCols ) ( c = 1, r ++ );\<close>
\<close>

type_synonym ('t, 's) forEach_callback =
  "'t \<Rightarrow> int \<Rightarrow> nat \<Rightarrow> nat \<Rightarrow> nat \<Rightarrow> IdentityMatrix \<Rightarrow> 's \<Rightarrow> 's"

function forEach_loop ::
  "('t, 's) forEach_callback \<Rightarrow> 't \<Rightarrow> IdentityMatrix \<Rightarrow> nat \<Rightarrow> nat \<Rightarrow> nat \<Rightarrow> nat \<Rightarrow> nat \<Rightarrow> 's \<Rightarrow> 's"
  where
  "forEach_loop callback thisArg matrix nCols n index r c s =
     (if index < n then
        (let entry = (if r = c then 1 else 0);
             s' = callback thisArg entry r c index matrix s;
             c' = c + 1
         in if c' > nCols
            then forEach_loop callback thisArg matrix nCols n (index + 1) (r + 1) 1 s'
            else forEach_loop callback thisArg matrix nCols n (index + 1) r c' s')
      else s)"
  by pat_completeness auto
termination
  by (relation "measure (\<lambda>(callback, thisArg, matrix, nCols, n, index, r, c, s). n - index)")
    auto

declare forEach_loop.simps [simp del]

definition forEach :: "IdentityMatrix \<Rightarrow> ('t, 's) forEach_callback \<Rightarrow> 't \<Rightarrow> 's \<Rightarrow> 's" where
  "forEach this callback thisArg s =
     (let matrix = this;
          nCols = size_columns this;
          n = nCols * nCols
      in forEach_loop callback thisArg matrix nCols n 0 1 1 s)"

text \<open>
  \<^verbatim>\<open>for ( let i = 0; i < _nRows; i ++ ) {
      let r = i + 1;
      let row = new Array( _nRows ).fill( 0 );
      row[ i ] = 1;
      callback.bind( thisArg )( row, r, matrix );
  }\<close>
\<close>

type_synonym ('t, 's) forEachRow_callback =
  "'t \<Rightarrow> int array \<Rightarrow> nat \<Rightarrow> IdentityMatrix \<Rightarrow> 's \<Rightarrow> 's"

function forEachRow_loop ::
  "('t, 's) forEachRow_callback \<Rightarrow> 't \<Rightarrow> IdentityMatrix \<Rightarrow> nat \<Rightarrow> nat \<Rightarrow> 's \<Rightarrow> js_error + 's"
  where
  "forEachRow_loop callback thisArg matrix nRows i s =
     (if i < nRows then
        (let r = i + 1 in
         case new_Array nRows of
           Inl e \<Rightarrow> Inl e
         | Inr a \<Rightarrow>
             (let row = store (fill a 0) (int i) 1
              in forEachRow_loop callback thisArg matrix nRows (i + 1)
                   (callback thisArg row r matrix s)))
      else Inr s)"
  by pat_completeness auto
termination
  by (relation "measure (\<lambda>(callback, thisArg, matrix, nRows, i, s). nRows - i)") auto

declare forEachRow_loop.simps [simp del]

definition forEachRow ::
  "IdentityMatrix \<Rightarrow> ('t, 's) forEachRow_callback \<Rightarrow> 't \<Rightarrow> 's \<Rightarrow> js_error + 's" where
  "forEachRow this callback thisArg s =
     (let matrix = this; nRows = size_rows this
      in forEachRow_loop callback thisArg matrix nRows 0 s)"

text \<open>\<^verbatim>\<open>forEachColumn( callback, thisArg ) { this.forEachRow( callback, thisArg ); }\<close>\<close>

definition forEachColumn ::
  "IdentityMatrix \<Rightarrow> ('t, 's) forEachRow_callback \<Rightarrow> 't \<Rightarrow> 's \<Rightarrow> js_error + 's" where
  "forEachColumn this callback thisArg s = forEachRow this callback thisArg s"



section \<open>What the iterators and accessors are compared with\<close>

text \<open>
  The \<open>c\<close>-th standard basis vector of length \<open>n\<close>, positions counted from 1, as an
  array without holes.
\<close>

definition basis_vector :: "nat \<Rightarrow> nat \<Rightarrow> int array" where
  "basis_vector n c = map (\<lambda>j. Some (if j = c then 1 else 0)) [1..<Suc n]"

text \<open>
  The calls a row-major traversal of an \<open>n\<close> by \<open>n\<close> identity matrix makes: row by row,
  within a row column by column, each with the entry (1 on the diagonal, 0 elsewhere),
  the row number and the column number counted from 1, and the flat offset counted
  from 0.
\<close>

definition forEach_calls :: "nat \<Rightarrow> (int \<times> nat \<times> nat \<times> nat) list" where
  "forEach_calls n =
     concat (map (\<lambda>r. map (\<lambda>c. (if r = c then 1 else 0, r, c, (r - 1) * n + (c - 1)))
                          [1..<Suc n]) [1..<Suc n])"

text \<open>The same calls, read off the flat offset: the form the loop of \<open>forEach\<close> yields.\<close>

definition call_at :: "nat \<Rightarrow> nat \<Rightarrow> int \<times> nat \<times> nat \<times> nat" where
  "call_at n index =
     (if index div n = index mod n then 1 else 0, index div n + 1, index mod n + 1, index)"

text \<open>The calls of a traversal by rows: row \<open>r\<close> of the identity matrix with its number.\<close>

definition forEachRow_calls :: "nat \<Rightarrow> (int array \<times> nat) list" where
  "forEachRow_calls n = map (\<lambda>r. (basis_vector n r, r)) [1..<Suc n]"

section \<open>Properties of linearCombination\<close>

lemma reduce_from_append:
  "reduce_from f r i (xs @ [x]) = f (reduce_from f r i xs) x (i + length xs)"
  by (induction xs arbitrary: r i) simp_all

lemma reduce_from_take_Suc:
  "k < length p \<Longrightarrow>
   reduce_from f r 0 (take (Suc k) p) = f (reduce_from f r 0 (take k p)) (p ! k) k"
  by (simp add: take_Suc_conv_app_nth reduce_from_append)

text \<open>
  With no law of arithmetic assumed (so for rounded operations as well), the result for
  equal lengths is the products added one by one from the left, starting from 0.
\<close>

lemma linearCombination_left_fold_prefix:
  fixes p q :: "'a::{zero,plus,times} list"
  shows "k \<le> length p \<Longrightarrow> k \<le> length q \<Longrightarrow>
    reduce_from (\<lambda>result v i. js_plus result (js_times (get p i) (get q i))) (Number 0) 0 (take k p)
     = Number (foldl (+) 0 (map (\<lambda>(x, y). x * y) (zip (take k p) (take k q))))"
proof (induction k)
  case 0
  then show ?case by simp
next
  case (Suc k)
  let ?f = "\<lambda>result v i. js_plus result (js_times (get p i) (get q i))"
  let ?acc = "foldl (+) 0 (map (\<lambda>(x, y). x * y) (zip (take k p) (take k q)))"
  have k: "k < length p" "k < length q" using Suc.prems by simp_all
  have IH: "reduce_from ?f (Number 0) 0 (take k p) = Number ?acc"
    using Suc.IH k by simp
  have "reduce_from ?f (Number 0) 0 (take (Suc k) p)
        = ?f (reduce_from ?f (Number 0) 0 (take k p)) (p ! k) k"
    by (rule reduce_from_take_Suc [OF k(1)])
  also have "\<dots> = js_plus (Number ?acc) (js_times (get p k) (get q k))"
    by (simp only: IH)
  also have "\<dots> = Number (?acc + p ! k * q ! k)"
    using k by (simp add: get_def)
  also have "\<dots> = Number (foldl (+) 0
        (map (\<lambda>(x, y). x * y) (zip (take (Suc k) p) (take (Suc k) q))))"
    using k by (simp add: take_Suc_conv_app_nth)
  finally show ?case .
qed

text \<open>
  Once the index has passed the end of \<open>q\<close>, the accumulator is \<open>NaN\<close> for good.
\<close>

lemma linearCombination_beyond:
  fixes p q :: "'a::{zero,plus,times} list"
  shows "length q < k \<Longrightarrow> k \<le> length p \<Longrightarrow>
    reduce_from (\<lambda>result v i. js_plus result (js_times (get p i) (get q i))) (Number 0) 0 (take k p)
     = NaN"
proof (induction k)
  case 0
  then show ?case by simp
next
  case (Suc k)
  let ?f = "\<lambda>result v i. js_plus result (js_times (get p i) (get q i))"
  have k: "k < length p" "length q \<le> k" using Suc.prems by simp_all
  have step: "reduce_from ?f (Number 0) 0 (take (Suc k) p)
        = ?f (reduce_from ?f (Number 0) 0 (take k p)) (p ! k) k"
    by (rule reduce_from_take_Suc [OF k(1)])
  have "js_times (get p k) (get q k) = NaN"
    using k by (simp add: get_def)
  then have "?f (reduce_from ?f (Number 0) 0 (take k p)) (p ! k) k = NaN"
    by (cases "reduce_from ?f (Number 0) 0 (take k p)") simp_all
  with step show ?case by simp
qed

text \<open>
  Where the carrier's arithmetic is exact (a semiring: the integers, the rationals), the
  left fold of the products is their sum.
\<close>

lemma left_fold_sum:
  fixes p q :: "'a::semiring_0 list"
  assumes "length p = length q"
  shows "foldl (+) 0 (map (\<lambda>(x, y). x * y) (zip p q)) = (\<Sum>i<length p. p ! i * q ! i)"
  using assms
proof (induction p arbitrary: q rule: rev_induct)
  case Nil
  then show ?case by simp
next
  case (snoc x xs)
  then obtain y ys where q: "q = ys @ [y]" "length ys = length xs"
    by (cases q rule: rev_cases) simp_all
  have "(\<Sum>i<length xs. (xs @ [x]) ! i * (ys @ [y]) ! i) = (\<Sum>i<length xs. xs ! i * ys ! i)"
    using q(2) by (intro sum.cong) (simp_all add: nth_append)
  then show ?case using snoc.IH [of ys] q by (simp add: nth_append)
qed

text \<open>
  C4. For two sequences of equal length, \<open>linearCombination\<close> returns the sum of the
  products \<open>p[i] * q[i]\<close>: the products added one by one from the left, starting from 0,
  with the addition and multiplication of the numbers themselves, whatever their
  rounding. The witness is the spec's example, \<open>[1,2,3]\<close> and \<open>[4,5,6]\<close> giving 32.
\<close>

theorem linearCombination_dot_product:
  fixes p q :: "'a::{zero,plus,times} list"
  assumes "length p = length q"
  shows "linearCombination p q = Number (foldl (+) 0 (map (\<lambda>(x, y). x * y) (zip p q)))"
  using assms linearCombination_left_fold_prefix [of "length p" p q]
  by (simp add: linearCombination_def reduce_def)

theorem linearCombination_dot_product_witness:
  "length [1, 2, 3 :: int] = length [4, 5, 6 :: int]
   \<and> linearCombination [1, 2, 3] [4, 5, 6 :: int] = Number 32"
  using linearCombination_dot_product [of "[1, 2, 3 :: int]" "[4, 5, 6]"]
  by simp

text \<open>
  C1, as the claim states it, does not hold: with arguments of different lengths the
  function returns a number. With the longer \<open>q\<close> it is the number 11, with the shorter
  \<open>q\<close> it is \<open>NaN\<close>.
\<close>

theorem linearCombination_mismatch_counterexample:
  "linearCombination [1, 2] [3, 4, 5 :: int] = Number 11
   \<and> linearCombination [1, 2, 3] [4 :: int] = NaN"
  by (simp add: linearCombination_def reduce_def get_def)

text \<open>
  C1, amended. When the lengths differ, \<open>linearCombination\<close> does not fail. If \<open>q\<close> is
  the longer one, its surplus elements are ignored: the result is the products of \<open>p\<close>
  with the first \<open>length p\<close> elements of \<open>q\<close>, added one by one from the left starting
  from 0. If \<open>q\<close> is the shorter one, the result is \<open>NaN\<close>.
\<close>

theorem linearCombination_mismatch:
  fixes p q :: "'a::{zero,plus,times} list"
  assumes "length p \<noteq> length q"
  shows "linearCombination p q =
     (if length p < length q
      then Number (foldl (+) 0 (map (\<lambda>(x, y). x * y) (zip p (take (length p) q))))
      else NaN)"
  using assms linearCombination_left_fold_prefix [of "length p" p q]
    linearCombination_beyond [of q "length p" p]
  by (simp add: linearCombination_def reduce_def)

theorem linearCombination_mismatch_witness:
  "length [1, 2 :: int] \<noteq> length [3, 4, 5 :: int]
   \<and> linearCombination [1, 2] [3, 4, 5 :: int] = Number 11"
  using linearCombination_mismatch [of "[1, 2 :: int]" "[3, 4, 5]"]
  by simp

section \<open>Arrays and the loops of the constructor\<close>

lemma new_Array_ok: "len \<le> 4294967295 \<Longrightarrow> new_Array len = Inr (replicate len None)"
  by (simp add: new_Array_def)

lemma fill_replicate: "fill (replicate len None) v = replicate len (Some v)"
  by (simp add: fill_def map_replicate_const)

lemma store_in_range:
  "i < length a \<Longrightarrow> length a \<le> 4294967295 \<Longrightarrow> store a (int i) v = a[i := Some v]"
  by (simp add: store_def)

text \<open>
  The diagonal loop keeps the length and writes 1 at the offsets \<open>index\<close>,
  \<open>index + (size + 1)\<close>, \<open>index + 2 * (size + 1)\<close>, ... below the bound; every other slot
  keeps its content.
\<close>

lemma diagonal_loop_length:
  "length es = n \<Longrightarrow> n \<le> 4294967295 \<Longrightarrow> length (diagonal_loop es index sz n) = n"
proof (induction es index sz n rule: diagonal_loop.induct)
  case (1 es index sz n)
  show ?case
  proof (cases "index < n")
    case True
    with 1 show ?thesis
      by (subst diagonal_loop.simps) (simp add: store_in_range)
  next
    case False
    with 1 show ?thesis by (subst diagonal_loop.simps) simp
  qed
qed

lemma diagonal_loop_nth:
  "length es = n \<Longrightarrow> n \<le> 4294967295 \<Longrightarrow> k < n \<Longrightarrow>
   diagonal_loop es index sz n ! k =
     (if index \<le> k \<and> (k - index) mod (sz + 1) = 0 then Some 1 else es ! k)"
proof (induction es index sz n rule: diagonal_loop.induct)
  case (1 es index sz n)
  show ?case
  proof (cases "index < n")
    case True
    have st: "store es (int index) 1 = es[index := Some 1]"
      using True 1 by (simp add: store_in_range)
    have IH: "diagonal_loop (es[index := Some 1]) (index + (sz + 1)) sz n ! k =
      (if index + (sz + 1) \<le> k \<and> (k - (index + (sz + 1))) mod (sz + 1) = 0 then Some 1
       else es[index := Some 1] ! k)"
      using "1.IH" [OF True] True "1.prems" st by simp
    have unf: "diagonal_loop es index sz n = diagonal_loop (es[index := Some 1]) (index + (sz + 1)) sz n"
      using True st by (subst diagonal_loop.simps) simp
    show ?thesis
    proof (cases "index \<le> k \<and> (k - index) mod (sz + 1) = 0")
      case yes: True
      show ?thesis
      proof (cases "k = index")
        case True
        with yes unf IH "1.prems" show ?thesis by simp
      next
        case False
        with yes have "k - index \<noteq> 0" by simp
        with yes have "sz + 1 \<le> k - index"
          by (metis mod_less not_le)
        then have a: "index + (sz + 1) \<le> k" using yes by simp
        have "(k - index) = (k - (index + (sz + 1))) + (sz + 1)" using a by simp
        then have "(k - (index + (sz + 1))) mod (sz + 1) = (k - index) mod (sz + 1)"
          by (metis mod_add_self2)
        with yes a unf IH show ?thesis by simp
      qed
    next
      case no: False
      have n1: "\<not> (index + (sz + 1) \<le> k \<and> (k - (index + (sz + 1))) mod (sz + 1) = 0)"
      proof
        assume h: "index + (sz + 1) \<le> k \<and> (k - (index + (sz + 1))) mod (sz + 1) = 0"
        then have "(k - index) = (k - (index + (sz + 1))) + (sz + 1)" by linarith
        then have "(k - index) mod (sz + 1) = (k - (index + (sz + 1))) mod (sz + 1)"
          by (metis mod_add_self2)
        with h no show False by simp
      qed
      have r1: "diagonal_loop (es[index := Some 1]) (index + (sz + 1)) sz n ! k = es[index := Some 1] ! k"
        by (simp only: IH n1 if_False)
      have "k \<noteq> index" using no by auto
      then have r2: "es[index := Some 1] ! k = es ! k" by simp
      show ?thesis by (simp only: unf r1 r2 no if_False)
    qed
  next
    case False
    with "1.prems" show ?thesis by (subst diagonal_loop.simps) simp
  qed
qed

lemma basis_vector_update:
  "i < n \<Longrightarrow> (replicate n (Some 0))[i := Some 1] = basis_vector n (Suc i)"
  by (rule nth_equalityI) (auto simp: basis_vector_def nth_list_update simp del: upt_Suc)

lemma unit_row:
  "i < n \<Longrightarrow> n \<le> 4294967295 \<Longrightarrow> store (fill (replicate n None) 0) (int i) 1 = basis_vector n (Suc i)"
  by (simp add: fill_replicate store_in_range basis_vector_update)

lemma basis_vector_nth:
  "j < n \<Longrightarrow> basis_vector n c ! j = Some (if Suc j = c then 1 else 0)"
  by (simp add: basis_vector_def del: upt_Suc)

text \<open>The loop that fills \<^verbatim>\<open>this.rows\<close> appends the basis vectors in order.\<close>

lemma rows_loop_eq:
  "sz \<le> 4294967295 \<Longrightarrow> i \<le> sz \<Longrightarrow>
   rows_loop i sz rs = Inr (rs @ map (\<lambda>j. basis_vector sz (Suc j)) [i..<sz])"
proof (induction i sz rs rule: rows_loop.induct)
  case (1 i sz rs)
  show ?case
  proof (cases "i < sz")
    case True
    have "rows_loop i sz rs = rows_loop (i + 1) sz (push rs (basis_vector sz (Suc i)))"
      using True "1.prems" by (subst rows_loop.simps) (simp add: new_Array_ok unit_row)
    also have "\<dots> = Inr (push rs (basis_vector sz (Suc i)) @ map (\<lambda>j. basis_vector sz (Suc j)) [i + 1..<sz])"
      using "1.IH" [OF True new_Array_ok [OF "1.prems"(1)] refl] True "1.prems" by (simp add: unit_row)
    also have "\<dots> = Inr (rs @ map (\<lambda>j. basis_vector sz (Suc j)) [i..<sz])"
      using True by (simp add: push_def upt_conv_Cons)
    finally show ?thesis .
  next
    case False
    with "1.prems" show ?thesis by (subst rows_loop.simps) simp
  qed
qed

text \<open>
  \<^verbatim>\<open>new Array( size * size )\<close> is within the length limit exactly up to size 65535.
\<close>

lemma limit_square: "n \<le> 65535 \<longleftrightarrow> n * n \<le> (4294967295::nat)"
proof
  assume "n \<le> 65535"
  then have "n * n \<le> 65535 * 65535" by (intro mult_le_mono)
  then show "n * n \<le> 4294967295" by simp
next
  assume h: "n * n \<le> 4294967295"
  show "n \<le> 65535"
  proof (rule ccontr)
    assume "\<not> n \<le> 65535"
    then have "65536 \<le> n" by simp
    then have "65536 * 65536 \<le> n * n" by (intro mult_le_mono)
    with h show False by simp
  qed
qed

lemma constructor_eq:
  "constructor n =
     (if n \<le> 65535 then
        Inr \<lparr> size_rows = n, size_columns = n, numberOfEntries = n * n,
              elements = diagonal_loop (replicate (n * n) (Some 0)) 0 n (n * n),
              rank = n,
              rows = map (\<lambda>j. basis_vector n (Suc j)) [0..<n],
              columns = map (\<lambda>j. basis_vector n (Suc j)) [0..<n] \<rparr>
      else Inl RangeError)"
proof (cases "n \<le> 65535")
  case True
  then have a: "n * n \<le> 4294967295" by (simp add: limit_square)
  have b: "n \<le> 4294967295" using True by simp
  show ?thesis using True
    by (simp add: constructor_def new_Array_ok [OF a] fill_replicate rows_loop_eq [OF b] slice_def Let_def)
next
  case False
  then have "\<not> n * n \<le> 4294967295" by (simp add: limit_square)
  with False show ?thesis by (simp add: constructor_def new_Array_def)
qed

lemma constructor_limit:
  assumes "constructor n = Inr M"
  shows "n \<le> 65535"
proof (rule ccontr)
  assume "\<not> n \<le> 65535"
  then have "constructor n = Inl RangeError" by (simp add: constructor_eq)
  with assms show False by simp
qed

lemma constructor_succeeds: "n \<le> 65535 \<Longrightarrow> \<exists>M. constructor n = Inr M"
  by (simp add: constructor_eq)

lemma constructor_Inr:
  assumes "constructor n = Inr M"
  shows "M = \<lparr> size_rows = n, size_columns = n, numberOfEntries = n * n,
              elements = diagonal_loop (replicate (n * n) (Some 0)) 0 n (n * n),
              rank = n,
              rows = map (\<lambda>j. basis_vector n (Suc j)) [0..<n],
              columns = map (\<lambda>j. basis_vector n (Suc j)) [0..<n] \<rparr>"
proof -
  have "constructor n = Inr \<lparr> size_rows = n, size_columns = n, numberOfEntries = n * n,
              elements = diagonal_loop (replicate (n * n) (Some 0)) 0 n (n * n),
              rank = n,
              rows = map (\<lambda>j. basis_vector n (Suc j)) [0..<n],
              columns = map (\<lambda>j. basis_vector n (Suc j)) [0..<n] \<rparr>"
    using constructor_limit [OF assms] by (simp add: constructor_eq)
  with assms show ?thesis by simp
qed

lemma constructor_size_rows: "constructor n = Inr M \<Longrightarrow> size_rows M = n"
  by (drule constructor_Inr) simp

lemma constructor_size_columns: "constructor n = Inr M \<Longrightarrow> size_columns M = n"
  by (drule constructor_Inr) simp

text \<open>
  Row-major offsets: an offset below \<open>n * n\<close> is a multiple of \<open>n + 1\<close> exactly on the
  diagonal.
\<close>

lemma offset_bound:
  fixes a b n :: nat
  assumes "a < n" "b < n"
  shows "a * n + b < n * n"
proof -
  have "a * n + b < a * n + n" using assms by simp
  also have "\<dots> = (a + 1) * n" by simp
  also have "\<dots> \<le> n * n" using assms by (intro mult_le_mono) simp_all
  finally show ?thesis .
qed

lemma offset_diagonal:
  fixes a b n :: nat
  assumes "a < n" "b < n"
  shows "(a * n + b) mod (n + 1) = 0 \<longleftrightarrow> a = b"
proof
  assume "a = b"
  then have "a * n + b = a * (n + 1)" by (simp add: algebra_simps)
  then show "(a * n + b) mod (n + 1) = 0" by (metis mod_mult_self2_is_0)
next
  assume "(a * n + b) mod (n + 1) = 0"
  then obtain k where k: "a * n + b = (n + 1) * k" by (auto simp: mod_eq_0_iff_dvd)
  have "a * n + b < n * n" using assms by (rule offset_bound)
  with k have lt: "(n + 1) * k < n * n" by simp
  have kn: "k < n"
  proof (rule ccontr)
    assume "\<not> k < n"
    then have "n * n \<le> (n + 1) * k" by (intro mult_le_mono) simp_all
    with lt show False by simp
  qed
  have e: "a * n + b = k * n + k" using k by (simp add: algebra_simps)
  have "(a * n + b) div n = a" "(a * n + b) mod n = b" using assms by simp_all
  moreover have "(k * n + k) div n = k" "(k * n + k) mod n = k" using kn by simp_all
  ultimately show "a = b" using e by metis
qed

lemma row_in_range:
  assumes "constructor n = Inr M" "1 \<le> c" "c \<le> n"
  shows "row M (int c) = Inr (basis_vector n c)"
proof -
  have n: "n \<le> 4294967295" using constructor_limit [OF assms(1)] by simp
  have sr: "size_rows M = n" by (rule constructor_size_rows [OF assms(1)])
  have c: "int c - 1 = int (c - 1)" using assms(2) by simp
  have "c - 1 < n" using assms by simp
  then have "store (fill (replicate n None) 0) (int (c - 1)) 1 = basis_vector n (Suc (c - 1))"
    using n by (rule unit_row)
  moreover have "Suc (c - 1) = c" using assms(2) by simp
  ultimately have u: "store (fill (replicate n None) 0) (int (c - 1)) 1 = basis_vector n c"
    by simp
  have "row M (int c) = Inr (store (fill (replicate n None) 0) (int c - 1) 1)"
    by (simp add: row_def sr new_Array_ok [OF n])
  then show ?thesis by (simp only: c u)
qed

section \<open>The iterators\<close>

lemma call_at_row:
  assumes "0 < n"
  shows "map (call_at n) [m * n..<m * n + n] =
         map (\<lambda>c. (if Suc m = c then 1 else 0, Suc m, c, m * n + (c - 1))) [1..<Suc n]"
proof -
  have "[m * n..<m * n + n] = map (\<lambda>j. j + m * n) [0..<n]"
    by (simp add: map_add_upt add.commute)
  moreover have "[1..<Suc n] = map Suc [0..<n]"
    by (simp add: map_Suc_upt)
  ultimately show ?thesis using assms
    by (auto simp: call_at_def simp del: upt_Suc)
qed

lemma call_at_rows:
  assumes "0 < n"
  shows "map (call_at n) [0..<m * n] =
         concat (map (\<lambda>r. map (\<lambda>c. (if r = c then 1 else 0, r, c, (r - 1) * n + (c - 1)))
                          [1..<Suc n]) [1..<Suc m])"
proof (induction m)
  case 0
  show ?case by simp
next
  case (Suc m)
  have "[0..<Suc m * n] = [0..<m * n] @ [m * n..<m * n + n]"
    by (metis add.commute le_add1 mult_Suc upt_add_eq_append zero_le)
  then show ?case using Suc call_at_row [OF assms, of m] by simp
qed

lemma forEach_calls_index: "forEach_calls n = map (call_at n) [0..<n * n]"
proof (cases "n = 0")
  case True
  then show ?thesis by (simp add: forEach_calls_def)
next
  case False
  then show ?thesis using call_at_rows [of n n] by (simp add: forEach_calls_def)
qed

lemma length_forEach_calls: "length (forEach_calls n) = n * n"
  by (simp add: forEach_calls_index)

text \<open>
  The loop of \<^verbatim>\<open>forEach\<close>, started anywhere with \<open>r\<close> and \<open>c\<close> in step with the
  offset, makes the remaining calls in order.
\<close>

lemma forEach_loop_eq:
  assumes "0 < n"
  shows "k = n * n - index \<Longrightarrow> index \<le> n * n \<Longrightarrow> r = index div n + 1 \<Longrightarrow> c = index mod n + 1 \<Longrightarrow>
    forEach_loop cb t M n (n * n) index r c s =
    foldl (\<lambda>s (e, r, c, i). cb t e r c i M s) s (map (call_at n) [index..<n * n])"
proof (induction k arbitrary: index r c s)
  case 0
  then show ?case by (subst forEach_loop.simps) simp
next
  case (Suc k)
  then have lt: "index < n * n" by simp
  let ?s' = "cb t (if r = c then 1 else 0) r c index M s"
  have hd: "[index..<n * n] = index # [Suc index..<n * n]" using lt by (simp add: upt_conv_Cons)
  have step: "foldl (\<lambda>s (e, r, c, i). cb t e r c i M s) s (map (call_at n) [index..<n * n]) =
      foldl (\<lambda>s (e, r, c, i). cb t e r c i M s) ?s' (map (call_at n) [Suc index..<n * n])"
    using Suc.prems by (simp add: hd call_at_def)
  show ?case
  proof (cases "c + 1 > n")
    case True
    with Suc.prems assms have m: "Suc (index mod n) = n" 
      by (metis Suc_eq_plus1 Suc_leI le_antisym mod_less_divisor not_less_eq_eq not_less)
    have "forEach_loop cb t M n (n * n) index r c s = forEach_loop cb t M n (n * n) (index + 1) (r + 1) 1 ?s'"
      using lt True by (subst forEach_loop.simps) (simp add: Let_def)
    also have "\<dots> = foldl (\<lambda>s (e, r, c, i). cb t e r c i M s) ?s' (map (call_at n) [index + 1..<n * n])"
      using Suc.prems lt m by (intro Suc.IH) (simp_all add: mod_Suc div_Suc)
    finally show ?thesis using step by simp
  next
    case False
    with Suc.prems assms have m: "Suc (index mod n) \<noteq> n" by simp
    have "forEach_loop cb t M n (n * n) index r c s = forEach_loop cb t M n (n * n) (index + 1) r (c + 1) ?s'"
      using lt False by (subst forEach_loop.simps) (simp add: Let_def)
    also have "\<dots> = foldl (\<lambda>s (e, r, c, i). cb t e r c i M s) ?s' (map (call_at n) [index + 1..<n * n])"
      using Suc.prems lt m by (intro Suc.IH) (simp_all add: mod_Suc div_Suc)
    finally show ?thesis using step by simp
  qed
qed

lemma forEachRow_loop_eq:
  "nRows \<le> 4294967295 \<Longrightarrow> k = nRows - i \<Longrightarrow> i \<le> nRows \<Longrightarrow>
   forEachRow_loop cb t M nRows i s =
     Inr (foldl (\<lambda>s (row, r). cb t row r M s) s (map (\<lambda>r. (basis_vector nRows r, r)) [Suc i..<Suc nRows]))"
proof (induction k arbitrary: i s)
  case 0
  then show ?case by (subst forEachRow_loop.simps) simp
next
  case (Suc k)
  then have lt: "i < nRows" by simp
  have hd: "[Suc i..<Suc nRows] = Suc i # [Suc (Suc i)..<Suc nRows]"
    using lt by (simp add: upt_conv_Cons del: upt_Suc)
  have "forEachRow_loop cb t M nRows i s =
        forEachRow_loop cb t M nRows (i + 1) (cb t (basis_vector nRows (Suc i)) (i + 1) M s)"
    using lt Suc.prems by (subst forEachRow_loop.simps) (simp add: new_Array_ok unit_row Let_def)
  also have "\<dots> = Inr (foldl (\<lambda>s (row, r). cb t row r M s) (cb t (basis_vector nRows (Suc i)) (i + 1) M s)
       (map (\<lambda>r. (basis_vector nRows r, r)) [Suc (i + 1)..<Suc nRows]))"
    using Suc.prems lt by (intro Suc.IH) simp_all
  finally show ?case by (simp add: hd del: upt_Suc)
qed

lemma forEach_eq:
  assumes "constructor n = Inr M"
  shows "forEach M cb t s = foldl (\<lambda>s (e, r, c, i). cb t e r c i M s) s (forEach_calls n)"
proof (cases "n = 0")
  case True
  have "forEach M cb t s = s"
    by (simp add: forEach_def constructor_size_columns [OF assms] True)
       (subst forEach_loop.simps, simp)
  then show ?thesis using True by (simp add: forEach_calls_def)
next
  case False
  then have "forEach_loop cb t M n (n * n) 0 1 1 s =
      foldl (\<lambda>s (e, r, c, i). cb t e r c i M s) s (map (call_at n) [0..<n * n])"
    by (intro forEach_loop_eq [where k = "n * n"]) simp_all
  then show ?thesis
    by (simp add: forEach_def constructor_size_columns [OF assms] forEach_calls_index Let_def)
qed

lemma forEachRow_eq:
  assumes "constructor n = Inr M"
  shows "forEachRow M cb t s = Inr (foldl (\<lambda>s (row, r). cb t row r M s) s (forEachRow_calls n))"
proof -
  have n: "n \<le> 4294967295" using constructor_limit [OF assms] by simp
  have "forEachRow_loop cb t M n 0 s =
     Inr (foldl (\<lambda>s (row, r). cb t row r M s) s
           (map (\<lambda>r. (basis_vector n r, r)) [Suc 0..<Suc n]))"
    using n by (intro forEachRow_loop_eq [where k = n]) simp_all
  then show ?thesis
    by (simp add: forEachRow_def constructor_size_rows [OF assms] forEachRow_calls_def Let_def
        del: upt_Suc)
qed

section \<open>Properties of IdentityMatrix\<close>

text \<open>
  C2, as the claim states it, does not hold for \<open>IdentityMatrix\<close>: on the 3 by 3
  identity matrix \<open>entry(5, 5)\<close> returns 1 and \<open>entry(0, 7)\<close> returns 0. The method
  compares its two arguments and looks at nothing else.
\<close>

theorem entry_out_of_range_counterexample:
  "\<not> isl (constructor 3) \<and> entry (projr (constructor 3)) 5 5 = 1
   \<and> entry (projr (constructor 3)) 0 7 = 0"
  by code_simp

text \<open>
  C2, amended. \<open>IdentityMatrix.entry(r, c)\<close> has no range check and does not fail: for a
  position outside \<open>[1, n]\<close> too it returns 1 if \<open>r\<close> equals \<open>c\<close> and 0 otherwise.
\<close>

theorem entry_out_of_range:
  assumes "constructor n = Inr M" and "r < 1 \<or> int n < r \<or> c < 1 \<or> int n < c"
  shows "entry M r c = (if r = c then 1 else 0)"
  by (simp add: entry_def)

theorem entry_out_of_range_witness:
  "constructor 3 = Inr (projr (constructor 3))
   \<and> ((5::int) < 1 \<or> int 3 < 5 \<or> (5::int) < 1 \<or> int 3 < 5)
   \<and> entry (projr (constructor 3)) 5 5 = 1"
proof -
  have h: "constructor 3 = Inr (projr (constructor 3))" by code_simp
  have o: "(5::int) < 1 \<or> int 3 < 5 \<or> (5::int) < 1 \<or> int 3 < 5" by simp
  have "entry (projr (constructor 3)) 5 5 = 1"
    using entry_out_of_range [OF h o] by simp
  with h o show ?thesis by blast
qed

text \<open>
  \<^verbatim>\<open>row\<close> does not check its argument either: beyond the size the assignment
  \<^verbatim>\<open>row[ r - 1 ] = 1\<close> makes the returned array longer, with a hole; at 0 it
  leaves the zeros alone.
\<close>

lemma row_beyond_size_example:
  "row (projr (constructor 3)) 5 = Inr [Some 0, Some 0, Some 0, None, Some 1]
   \<and> row (projr (constructor 3)) 0 = Inr [Some 0, Some 0, Some 0]"
  by code_simp




text \<open>
  C5. On an identity matrix of size \<open>n\<close>, \<open>entry(r, c)\<close> with \<open>1 \<le> r, c \<le> n\<close> returns 1
  if \<open>r = c\<close> and 0 otherwise. The witness is the 3 by 3 matrix: \<open>entry(2, 2)\<close> is 1 and
  \<open>entry(1, 2)\<close> is 0.
\<close>

theorem entry_in_range:
  assumes "constructor n = Inr M" and "1 \<le> r" and "r \<le> int n" and "1 \<le> c" and "c \<le> int n"
  shows "entry M r c = (if r = c then 1 else 0)"
  by (simp add: entry_def)

theorem entry_in_range_witness:
  "constructor 3 = Inr (projr (constructor 3)) \<and> (1::int) \<le> 2 \<and> (2::int) \<le> int 3
   \<and> (1::int) \<le> 1 \<and> (1::int) \<le> int 3
   \<and> entry (projr (constructor 3)) 2 2 = 1 \<and> entry (projr (constructor 3)) 1 2 = 0"
proof -
  have h: "constructor 3 = Inr (projr (constructor 3))" by code_simp
  have a: "(1::int) \<le> 2" "(2::int) \<le> int 3" "(1::int) \<le> 1" "(1::int) \<le> int 3"
    by simp_all
  have "entry (projr (constructor 3)) 2 2 = 1"
    using entry_in_range [OF h a(1,2) a(1,2)] by simp
  moreover have "entry (projr (constructor 3)) 1 2 = 0"
    using entry_in_range [OF h a(3,4) a(1,2)] by simp
  ultimately show ?thesis using h a by blast
qed

text \<open>
  C6. On an identity matrix of size \<open>n\<close>, \<open>forEach\<close> makes exactly the \<open>n * n\<close> calls of
  the row-major traversal, in that order, each with the entry, the row and column
  numbers counted from 1 and the flat offset counted from 0; \<open>forEachRow\<close> makes one
  call per row, for rows 1 to \<open>n\<close> in order, with the row's entries; \<open>forEachColumn\<close>
  makes one call per column; and a traversal run again makes the same calls again, as
  nothing is kept between two runs.
\<close>

theorem iterators_trace:
  assumes "constructor n = Inr M"
  shows "forEach M cb t s = foldl (\<lambda>s (e, r, c, i). cb t e r c i M s) s (forEach_calls n)
     \<and> length (forEach_calls n) = n * n
     \<and> forEachRow M cbr tr sr
         = Inr (foldl (\<lambda>s (row, r). cbr tr row r M s) sr (forEachRow_calls n))
     \<and> forEachColumn M cbr tr sr
         = Inr (foldl (\<lambda>s (row, r). cbr tr row r M s) sr (forEachRow_calls n))
     \<and> length (forEachRow_calls n) = n
     \<and> forEach M cb t (forEach M cb t s)
         = foldl (\<lambda>s (e, r, c, i). cb t e r c i M s) s (forEach_calls n @ forEach_calls n)
     \<and> (case forEachRow M cbr tr sr of Inl e \<Rightarrow> Inl e | Inr s' \<Rightarrow> forEachRow M cbr tr s')
         = Inr (foldl (\<lambda>s (row, r). cbr tr row r M s) sr
                 (forEachRow_calls n @ forEachRow_calls n))"
proof -
  have c: "forEachColumn M cbr tr sr
         = Inr (foldl (\<lambda>s (row, r). cbr tr row r M s) sr (forEachRow_calls n))"
    by (simp add: forEachColumn_def forEachRow_eq [OF assms])
  have l: "length (forEachRow_calls n) = n" by (simp add: forEachRow_calls_def)
  have r1: "forEach M cb t (forEach M cb t s)
         = foldl (\<lambda>s (e, r, c, i). cb t e r c i M s) s (forEach_calls n @ forEach_calls n)"
    by (simp add: forEach_eq [OF assms])
  have r2: "(case forEachRow M cbr tr sr of Inl e \<Rightarrow> Inl e | Inr s' \<Rightarrow> forEachRow M cbr tr s')
         = Inr (foldl (\<lambda>s (row, r). cbr tr row r M s) sr
                 (forEachRow_calls n @ forEachRow_calls n))"
    by (simp add: forEachRow_eq [OF assms])
  show ?thesis
    by (intro conjI forEach_eq [OF assms] length_forEach_calls forEachRow_eq [OF assms] c l r1 r2)
qed

theorem iterators_trace_witness:
  "constructor 2 = Inr (projr (constructor 2))
   \<and> forEach (projr (constructor 2)) (\<lambda>t e r c i m s. s @ [(e, r, c, i)]) () []
       = [(1, 1, 1, 0), (0, 1, 2, 1), (0, 2, 1, 2), (1, 2, 2, 3)]
   \<and> forEachRow (projr (constructor 2)) (\<lambda>t row r m s. s @ [(row, r)]) () []
       = Inr [([Some 1, Some 0], 1), ([Some 0, Some 1], 2)]
   \<and> forEachColumn (projr (constructor 2)) (\<lambda>t row r m s. s @ [(row, r)]) () []
       = Inr [([Some 1, Some 0], 1), ([Some 0, Some 1], 2)]"
proof -
  have h: "constructor 2 = Inr (projr (constructor 2))" by code_simp
  note s = iterators_trace [OF h, where cb = "\<lambda>t e r c i m s. s @ [(e, r, c, i)]" and t = "()"
      and s = "[]" and cbr = "\<lambda>t row r m s. s @ [(row, r)]" and tr = "()" and sr = "[]"]
  have e1: "foldl (\<lambda>s (e, r, c, i). s @ [(e, r, c, i)]) [] (forEach_calls 2)
      = [(1, 1, 1, 0), (0, 1, 2, 1), (0, 2, 1, 2), (1, 2, 2, 3)]" by code_simp
  have e2: "foldl (\<lambda>s (row, r). s @ [(row, r)]) [] (forEachRow_calls 2)
      = [([Some 1, Some 0], 1), ([Some 0, Some 1], 2)]" by code_simp
  note a = s [THEN conjunct1, unfolded e1]
  note b = s [THEN conjunct2, THEN conjunct2, THEN conjunct1, unfolded e2]
  note c = s [THEN conjunct2, THEN conjunct2, THEN conjunct2, THEN conjunct1, unfolded e2]
  show ?thesis by (intro conjI h a b c)
qed

text \<open>
  C7. The transpose of an identity matrix is a matrix equal to it, field by field, and
  so is the transpose of the transpose.
\<close>

theorem transpose_involution:
  assumes "constructor n = Inr M"
  shows "transpose_get M = Inr M
     \<and> (case transpose_get M of Inl e \<Rightarrow> Inl e | Inr T \<Rightarrow> transpose_get T) = Inr M"
proof -
  have "transpose_get M = Inr M"
    using assms by (simp add: transpose_get_def clone_def constructor_size_rows [OF assms])
  then show ?thesis by simp
qed

theorem transpose_involution_witness:
  "constructor 3 = Inr (projr (constructor 3))
   \<and> transpose_get (projr (constructor 3)) = Inr (projr (constructor 3))
   \<and> (case transpose_get (projr (constructor 3)) of Inl e \<Rightarrow> Inl e
        | Inr T \<Rightarrow> transpose_get T) = Inr (projr (constructor 3))"
proof -
  have h: "constructor 3 = Inr (projr (constructor 3))" by code_simp
  from h transpose_involution [OF h] show ?thesis by blast
qed

text \<open>
  C8. After \<open>IdentityMatrix(n)\<close> is constructed, \<^verbatim>\<open>elements\<close> has
  \<open>rows * columns = n * n\<close> slots, the slot at the row-major offset
  \<open>(r - 1) * n + (c - 1)\<close> holds \<open>entry(r, c)\<close> for all \<open>1 \<le> r, c \<le> n\<close>, and
  \<^verbatim>\<open>rows\<close> has \<open>n\<close> rows, each of length \<open>n\<close>.
\<close>

theorem storage_invariant:
  assumes "constructor n = Inr M"
  shows "length (elements M) = size_rows M * size_columns M
     \<and> size_rows M * size_columns M = n * n
     \<and> (\<forall>r c. 1 \<le> r \<and> r \<le> n \<and> 1 \<le> c \<and> c \<le> n \<longrightarrow>
           elements M ! ((r - 1) * n + (c - 1)) = Some (entry M (int r) (int c)))
     \<and> length (rows M) = n
     \<and> (\<forall>row \<in> set (rows M). length row = n)"
proof -
  note M = constructor_Inr [OF assms]
  have nn: "n * n \<le> 4294967295" using constructor_limit [OF assms] by (simp add: limit_square)
  have el: "elements M = diagonal_loop (replicate (n * n) (Some 0)) 0 n (n * n)"
    by (subst M) simp
  have len: "length (elements M) = n * n"
    unfolding el using nn by (intro diagonal_loop_length) simp_all
  have ent: "elements M ! ((r - 1) * n + (c - 1)) = Some (entry M (int r) (int c))"
    if "1 \<le> r" "r \<le> n" "1 \<le> c" "c \<le> n" for r c
  proof -
    have a: "r - 1 < n" "c - 1 < n" using that by simp_all
    have k: "(r - 1) * n + (c - 1) < n * n" using a by (rule offset_bound)
    have "elements M ! ((r - 1) * n + (c - 1)) =
        (if ((r - 1) * n + (c - 1)) mod (n + 1) = 0 then Some 1 else Some 0)"
      unfolding el using diagonal_loop_nth [OF _ nn k, of "replicate (n * n) (Some 0)" 0 n] k
      by simp
    also have "\<dots> = (if r - 1 = c - 1 then Some 1 else Some 0)"
      using offset_diagonal [OF a] by simp
    also have "\<dots> = Some (entry M (int r) (int c))"
      using that by (auto simp: entry_def)
    finally show ?thesis .
  qed
  have rs: "rows M = map (\<lambda>j. basis_vector n (Suc j)) [0..<n]" by (subst M) simp
  have lr: "length (rows M) = n" by (simp add: rs)
  have lrow: "\<forall>row \<in> set (rows M). length row = n"
    by (auto simp: rs basis_vector_def simp del: upt_Suc)
  have sz: "size_rows M * size_columns M = n * n"
    by (simp add: constructor_size_rows [OF assms] constructor_size_columns [OF assms])
  have l1: "length (elements M) = size_rows M * size_columns M"
    using len sz by simp
  have ent_all: "\<forall>r c. 1 \<le> r \<and> r \<le> n \<and> 1 \<le> c \<and> c \<le> n \<longrightarrow>
           elements M ! ((r - 1) * n + (c - 1)) = Some (entry M (int r) (int c))"
    by (intro allI impI ent) simp_all
  show ?thesis by (intro conjI l1 sz ent_all lr lrow)
qed

theorem storage_invariant_witness:
  "constructor 2 = Inr (projr (constructor 2))
   \<and> ((1::nat) \<le> 2 \<and> (2::nat) \<le> 2 \<and> (1::nat) \<le> 2 \<and> (2::nat) \<le> 2)
   \<and> [Some 1, Some 0] \<in> set (rows (projr (constructor 2)))
   \<and> length (elements (projr (constructor 2)))
       = size_rows (projr (constructor 2)) * size_columns (projr (constructor 2))
   \<and> size_rows (projr (constructor 2)) * size_columns (projr (constructor 2)) = 2 * 2
   \<and> elements (projr (constructor 2)) ! ((2 - 1) * 2 + (2 - 1))
       = Some (entry (projr (constructor 2)) (int 2) (int 2))
   \<and> length (rows (projr (constructor 2))) = 2
   \<and> length [Some (1::int), Some 0] = 2"
proof -
  have h: "constructor 2 = Inr (projr (constructor 2))" by code_simp
  have r: "(1::nat) \<le> 2 \<and> (2::nat) \<le> 2 \<and> (1::nat) \<le> 2 \<and> (2::nat) \<le> 2" by simp
  have m: "[Some 1, Some 0] \<in> set (rows (projr (constructor 2)))" by code_simp
  note s = storage_invariant [OF h]
  note a = s [THEN conjunct1]
  note b = s [THEN conjunct2, THEN conjunct1]
  note e = s [THEN conjunct2, THEN conjunct2, THEN conjunct1, rule_format, OF r]
  note lr = s [THEN conjunct2, THEN conjunct2, THEN conjunct2, THEN conjunct1]
  note lrow = s [THEN conjunct2, THEN conjunct2, THEN conjunct2, THEN conjunct2, rule_format, OF m]
  show ?thesis by (intro conjI h a b e lr lrow m) simp_all
qed

text \<open>
  C9. The rank of \<open>IdentityMatrix(n)\<close> is \<open>n\<close>. (The constructor returns a matrix for
  every \<open>n\<close> up to 65535; beyond, \<^verbatim>\<open>new Array\<close> raises and there is no matrix.)
\<close>

theorem rank_eq_size:
  assumes "constructor n = Inr M"
  shows "rank M = n"
  using constructor_Inr [OF assms] by simp

theorem rank_eq_size_witness:
  "constructor 3 = Inr (projr (constructor 3)) \<and> rank (projr (constructor 3)) = 3"
proof -
  have h: "constructor 3 = Inr (projr (constructor 3))" by code_simp
  from h rank_eq_size [OF h] show ?thesis by blast
qed

text \<open>
  C10. On an identity matrix of size \<open>n\<close> and for \<open>1 \<le> c \<le> n\<close>, \<open>column(c)\<close> returns
  the same sequence as \<open>row(c)\<close>, the \<open>c\<close>-th standard basis vector of length \<open>n\<close>: its
  \<open>j\<close>-th element is both \<open>entry(j, c)\<close> and \<open>entry(c, j)\<close>. And \<open>forEachColumn\<close> does
  exactly what \<open>forEachRow\<close> does.
\<close>

theorem column_eq_row:
  assumes "constructor n = Inr M" and "1 \<le> c" and "c \<le> n"
  shows "column M (int c) = row M (int c)
     \<and> row M (int c) = Inr (basis_vector n c)
     \<and> (\<forall>j. 1 \<le> j \<and> j \<le> n \<longrightarrow>
           basis_vector n c ! (j - 1) = Some (entry M (int j) (int c))
           \<and> basis_vector n c ! (j - 1) = Some (entry M (int c) (int j)))
     \<and> forEachColumn M cb t s = forEachRow M cb t s"
proof -
  have "basis_vector n c ! (j - 1) = Some (entry M (int j) (int c))
      \<and> basis_vector n c ! (j - 1) = Some (entry M (int c) (int j))"
    if "1 \<le> j \<and> j \<le> n" for j
  proof -
    have "j - 1 < n" "Suc (j - 1) = j" using that by auto
    then show ?thesis by (auto simp: basis_vector_nth entry_def)
  qed
  moreover have "column M (int c) = row M (int c)"
    by (simp add: column_def)
  moreover have "forEachColumn M cb t s = forEachRow M cb t s"
    by (simp add: forEachColumn_def)
  ultimately show ?thesis
    using row_in_range [OF assms] by blast
qed

theorem column_eq_row_witness:
  "constructor 3 = Inr (projr (constructor 3)) \<and> (1::nat) \<le> 2 \<and> (2::nat) \<le> 3
   \<and> column (projr (constructor 3)) (int 2) = Inr [Some 0, Some 1, Some 0]
   \<and> row (projr (constructor 3)) (int 2) = Inr [Some 0, Some 1, Some 0]"
proof -
  have h: "constructor 3 = Inr (projr (constructor 3))" by code_simp
  have b: "basis_vector 3 2 = [Some 0, Some 1, Some 0]" by code_simp
  have c: "(1::nat) \<le> 2" "(2::nat) \<le> 3" by simp_all
  have "column (projr (constructor 3)) (int 2) = Inr [Some 0, Some 1, Some 0]"
       "row (projr (constructor 3)) (int 2) = Inr [Some 0, Some 1, Some 0]"
    using b column_eq_row [OF h c, where cb = "\<lambda>t row r m s. s" and t = "()" and s = "()"]
    by simp_all
  with h c show ?thesis by blast
qed

end
